theory Spec2Isabelle
  imports Main
begin

section \<open>Python strings, slices and searches\<close>

text \<open>
  A Python \<^verbatim>\<open>str\<close> is a sequence of Unicode code points; it is modelled as a list of
  natural numbers. \<open>py\<close> turns an ASCII literal into such a list, so that the literals
  of \<^verbatim>\<open>src/entrypoint.py\<close> can be written as they are.
\<close>

type_synonym pystr = "nat list"

definition py :: "string \<Rightarrow> pystr" where
  "py s = map of_char s"

text \<open>
  \<^verbatim>\<open>str.isspace\<close> for one code point: the code points that CPython classifies as
  whitespace.
\<close>

definition is_space :: "nat \<Rightarrow> bool" where
  "is_space c \<longleftrightarrow>
     (9 \<le> c \<and> c \<le> 13) \<or> (28 \<le> c \<and> c \<le> 32) \<or> c = 133 \<or> c = 160 \<or> c = 5760 \<or>
     (8192 \<le> c \<and> c \<le> 8202) \<or> c = 8232 \<or> c = 8233 \<or> c = 8239 \<or> c = 8287 \<or> c = 12288"

text \<open>\<^verbatim>\<open>s.strip()\<close>: leading and trailing whitespace removed.\<close>

definition py_strip :: "pystr \<Rightarrow> pystr" where
  "py_strip s = rev (dropWhile is_space (rev (dropWhile is_space s)))"

text \<open>
  How a slice bound is read against a sequence of length \<open>n\<close>: a negative bound counts
  from the end, and the result is clipped to \<open>0..n\<close>.
\<close>

definition py_index :: "nat \<Rightarrow> int \<Rightarrow> nat" where
  "py_index n i = (if i < 0 then nat (int n + i) else min n (nat i))"

text \<open>\<^verbatim>\<open>xs[i:j]\<close>.\<close>

definition py_slice :: "'a list \<Rightarrow> int \<Rightarrow> int \<Rightarrow> 'a list" where
  "py_slice xs i j =
     (let a = py_index (length xs) i; b = py_index (length xs) j
      in take (b - a) (drop a xs))"

text \<open>
  \<^verbatim>\<open>text.rfind(sub, start, end)\<close>: the highest index \<open>i\<close> with
  \<open>start \<le> i\<close>, \<open>i + len(sub) \<le> end\<close> and \<open>text[i:i+len(sub)] == sub\<close>, the
  bounds being read as slice bounds (the start is not clipped to the length), and \<open>-1\<close> when
  there is none. \<open>rfind_scan text sub lo k\<close> tries the indices \<open>lo + k\<close> down to \<open>lo\<close>.
\<close>

fun rfind_scan :: "pystr \<Rightarrow> pystr \<Rightarrow> nat \<Rightarrow> nat \<Rightarrow> int" where
  "rfind_scan text sub lo 0 =
     (if take (length sub) (drop lo text) = sub then int lo else - 1)"
| "rfind_scan text sub lo (Suc k) =
     (if take (length sub) (drop (lo + Suc k) text) = sub then int (lo + Suc k)
      else rfind_scan text sub lo k)"

definition py_rfind :: "pystr \<Rightarrow> pystr \<Rightarrow> int \<Rightarrow> int \<Rightarrow> int" where
  "py_rfind text sub start end =
     (let n = int (length text);
          e = (if end > n then n else if end < 0 then max 0 (end + n) else end);
          s = (if start < 0 then max 0 (start + n) else start)
      in if e - s < int (length sub) then - 1
         else rfind_scan text sub (nat s) (nat (e - s - int (length sub))))"

section \<open>The chunker\<close>

text \<open>
  The two markers of \<^verbatim>\<open>chunk_text\<close>, as the source writes them: \<^verbatim>\<open>"\\n@@"\<close> and
  \<^verbatim>\<open>"\\ndiff --git "\<close>. In a Python literal \<^verbatim>\<open>\\\<close> is one backslash (code point 92),
  so each marker begins with a backslash and the letter \<open>n\<close>.
\<close>

definition hunk_marker :: pystr where
  "hunk_marker = 92 # py ''n@@''"

definition file_marker :: pystr where
  "file_marker = 92 # py ''ndiff --git ''"

text \<open>
  One pass of the loop body of \<^verbatim>\<open>chunk_text\<close> up to the split point \<open>h\<close>
  (the lines from \<^verbatim>\<open>end = min(...)\<close> to \<^verbatim>\<open>h = end\<close>).
\<close>

definition split_point :: "pystr \<Rightarrow> int \<Rightarrow> int \<Rightarrow> int" where
  "split_point text max_chars start =
     (let end = min (start + max_chars) (int (length text));
          h = py_rfind text hunk_marker start end;
          h = (if h = - 1 \<or> h \<le> start + 1000 then py_rfind text file_marker start end else h);
          h = (if h = - 1 \<or> h \<le> start + 1000 then end else h)
      in h)"

text \<open>
  The \<^verbatim>\<open>while start < len(text)\<close> loop. Nothing in the source bounds the number of
  passes, so the loop is a partial function: \<open>None\<close> is a run that never leaves the loop.
\<close>

partial_function (option) chunk_loop ::
  "pystr \<Rightarrow> int \<Rightarrow> pystr list \<Rightarrow> int \<Rightarrow> pystr list option" where
  "chunk_loop text max_chars chunks start =
     (if start < int (length text) then
        (let h = split_point text max_chars start
         in chunk_loop text max_chars (chunks @ [py_slice text start h]) h)
      else Some chunks)"

definition chunk_text :: "pystr \<Rightarrow> int \<Rightarrow> pystr list option" where
  "chunk_text text max_chars =
     (if int (length text) \<le> max_chars then Some [text]
      else map_option (filter (\<lambda>c. py_strip c \<noteq> [])) (chunk_loop text max_chars [] 0))"

section \<open>The revision resolver\<close>

text \<open>
  The git commands run in a world that the program does not control. A shell is a
  function from a command line and a world to the return code and the captured standard
  output of the command, and the world after it; the world's type is left open.
  (The standard error stream is only printed by \<^verbatim>\<open>sh\<close> and is left out.)
\<close>

type_synonym 'w shell = "pystr \<Rightarrow> 'w \<Rightarrow> (int \<times> pystr) \<times> 'w"

text \<open>
  \<^verbatim>\<open>sh(cmd)\<close>: \<open>Inl returncode\<close> is \<^verbatim>\<open>raise SystemExit(returncode)\<close>, \<open>Inr stdout\<close>
  is the returned output.
\<close>

definition sh :: "'w shell \<Rightarrow> pystr \<Rightarrow> 'w \<Rightarrow> (int + pystr) \<times> 'w" where
  "sh run cmd w =
     (case run cmd w of
        ((returncode, stdout), w') \<Rightarrow>
          if returncode \<noteq> 0 then (Inl returncode, w') else (Inr stdout, w'))"

text \<open>\<^verbatim>\<open>_ref_exists(ref)\<close>.\<close>

definition ref_exists :: "'w shell \<Rightarrow> pystr \<Rightarrow> 'w \<Rightarrow> bool \<times> 'w" where
  "ref_exists run ref w =
     (case sh run (py ''git rev-parse --verify --quiet '' @ ref) w of
        (Inr _, w') \<Rightarrow> (True, w')
      | (Inl _, w') \<Rightarrow> (False, w'))"

text \<open>
  Step 1 of \<^verbatim>\<open>get_diff\<close>: the fetch, and on its failure the attempt to add a local
  origin and fetch again. Every \<^verbatim>\<open>SystemExit\<close> is swallowed; only the world changes.
\<close>

definition get_diff_fetch :: "'w shell \<Rightarrow> pystr \<Rightarrow> 'w \<Rightarrow> 'w" where
  "get_diff_fetch run base_ref w =
     (case sh run (py ''git fetch --no-tags --depth=1 origin '' @ base_ref) w of
        (Inr _, w1) \<Rightarrow> w1
      | (Inl _, w1) \<Rightarrow>
          (case sh run (py ''git remote add origin .'') w1 of
             (Inl _, w2) \<Rightarrow> w2
           | (Inr _, w2) \<Rightarrow>
               (case sh run (py ''git fetch --no-tags --depth=1 origin '' @ base_ref) w2 of
                  (Inl _, w3) \<Rightarrow> w3
                | (Inr _, w3) \<Rightarrow> w3)))"

text \<open>
  Step 2: the \<^verbatim>\<open>for base in candidates\<close> loop. \<open>Some d\<close> is \<^verbatim>\<open>return d\<close> from inside the
  loop, \<open>None\<close> is the loop running to its end.
\<close>

fun get_diff_candidates ::
  "'w shell \<Rightarrow> pystr \<Rightarrow> pystr list \<Rightarrow> 'w \<Rightarrow> pystr option \<times> 'w" where
  "get_diff_candidates run head_sha [] w = (None, w)"
| "get_diff_candidates run head_sha (base # rest) w =
     (case ref_exists run base w of
        (True, w1) \<Rightarrow>
          (case sh run (py ''git diff --unified=0 --no-color '' @ base @ py ''...'' @ head_sha) w1 of
             (Inr out, w2) \<Rightarrow> (Some (py_strip out), w2)
           | (Inl _, w2) \<Rightarrow> get_diff_candidates run head_sha rest w2)
      | (False, w1) \<Rightarrow> get_diff_candidates run head_sha rest w1)"

text \<open>Step 3: the explicit merge base. \<open>None\<close> is falling through to step 4.\<close>

definition get_diff_merge_base ::
  "'w shell \<Rightarrow> pystr \<Rightarrow> pystr \<Rightarrow> 'w \<Rightarrow> pystr option \<times> 'w" where
  "get_diff_merge_base run base_ref head_sha w =
     (case sh run (py ''git merge-base '' @ head_sha @ py '' '' @ base_ref) w of
        (Inl _, w1) \<Rightarrow> (None, w1)
      | (Inr out, w1) \<Rightarrow>
          (let mb = py_strip out
           in if mb \<noteq> [] then
                (case sh run (py ''git diff --unified=0 --no-color '' @ mb @ py ''..'' @ head_sha) w1 of
                   (Inr d, w2) \<Rightarrow> (Some (py_strip d), w2)
                 | (Inl _, w2) \<Rightarrow> (None, w2))
              else (None, w1)))"

text \<open>Step 4: the diff of the last commit, and the empty string when that fails too.\<close>

definition get_diff_last_commit :: "'w shell \<Rightarrow> 'w \<Rightarrow> pystr \<times> 'w" where
  "get_diff_last_commit run w =
     (case sh run (py ''git diff --unified=0 --no-color HEAD~1..HEAD'') w of
        (Inr d, w1) \<Rightarrow> (py_strip d, w1)
      | (Inl _, w1) \<Rightarrow> ([], w1))"

text \<open>
  \<^verbatim>\<open>get_diff(base_ref, head_sha)\<close>. The result is \<open>Inl returncode\<close> for a
  \<^verbatim>\<open>SystemExit\<close> that leaves the function and \<open>Inr d\<close> for a returned string.
\<close>

definition get_diff :: "'w shell \<Rightarrow> pystr \<Rightarrow> pystr \<Rightarrow> 'w \<Rightarrow> (int + pystr) \<times> 'w" where
  "get_diff run base_ref head_sha w =
     (let w1 = get_diff_fetch run base_ref w;
          candidates = [py ''origin/'' @ base_ref, base_ref]
      in case get_diff_candidates run head_sha candidates w1 of
           (Some d, w2) \<Rightarrow> (Inr d, w2)
         | (None, w2) \<Rightarrow>
             (case get_diff_merge_base run base_ref head_sha w2 of
                (Some d, w3) \<Rightarrow> (Inr d, w3)
              | (None, w3) \<Rightarrow>
                  (case get_diff_last_commit run w3 of (d, w4) \<Rightarrow> (Inr d, w4))))"

section \<open>The size ceiling of the posted comment\<close>

text \<open>
  The end of \<^verbatim>\<open>main\<close>: a body of more than 18000 characters is replaced by the notice
  followed by \<^verbatim>\<open>body[-18000:]\<close>. The notice is the source's triple-quoted literal: the
  sentence, a newline, eight spaces, a newline and sixteen spaces.
\<close>

definition truncation_notice :: pystr where
  "truncation_notice =
     py ''_Note: Review truncated due to size limits.'' @ [10] @ py ''        '' @ [10] @
     py ''                ''"

definition truncate_body :: "pystr \<Rightarrow> pystr" where
  "truncate_body body =
     (if length body > 18000
      then truncation_notice @ py_slice body (- 18000) (int (length body))
      else body)"

section \<open>Facts about the string operations\<close>

lemma py_strip_Nil_iff: "py_strip s = [] \<longleftrightarrow> (\<forall>c\<in>set s. is_space c)"
proof -
  have "py_strip s = [] \<longleftrightarrow> (\<forall>c\<in>set (dropWhile is_space s). is_space c)"
    by (simp add: py_strip_def dropWhile_eq_Nil_conv)
  also have "\<dots> \<longleftrightarrow> dropWhile is_space s = []"
  proof
    assume a: "\<forall>c\<in>set (dropWhile is_space s). is_space c"
    show "dropWhile is_space s = []"
    proof (rule ccontr)
      assume n: "dropWhile is_space s \<noteq> []"
      then have "hd (dropWhile is_space s) \<in> set (dropWhile is_space s)" by simp
      with a have "is_space (hd (dropWhile is_space s))" by blast
      with n show False using hd_dropWhile [of is_space s] by blast
    qed
  next
    assume e: "dropWhile is_space s = []"
    show "\<forall>c\<in>set (dropWhile is_space s). is_space c" unfolding e by simp
  qed
  also have "\<dots> \<longleftrightarrow> (\<forall>c\<in>set s. is_space c)"
    by (simp add: dropWhile_eq_Nil_conv)
  finally show ?thesis .
qed

lemma last_dropWhile: "dropWhile P xs \<noteq> [] \<Longrightarrow> last (dropWhile P xs) = last xs"
  by (metis last_appendR takeWhile_dropWhile_id)

lemma py_strip_idem: "py_strip (py_strip s) = py_strip s"
proof -
  define t where "t = dropWhile is_space s"
  define u where "u = dropWhile is_space (rev t)"
  have s: "py_strip s = rev u" by (simp add: py_strip_def t_def u_def)
  have 1: "dropWhile is_space (rev u) = rev u"
  proof (cases "u = []")
    case True
    then show ?thesis by simp
  next
    case False
    then have "rev t \<noteq> []" by (auto simp: u_def)
    then have t: "t \<noteq> []" by simp
    have "last u = last (rev t)" using False unfolding u_def by (rule last_dropWhile)
    also have "\<dots> = hd t" using t by (simp add: last_rev)
    finally have "hd (rev u) = hd t" using False by (simp add: hd_rev)
    moreover have "\<not> is_space (hd t)" using t hd_dropWhile [of is_space s] by (simp add: t_def)
    ultimately show ?thesis by (simp add: dropWhile_eq_self_iff)
  qed
  have 2: "dropWhile is_space u = u" by (simp add: u_def)
  show ?thesis unfolding s by (simp add: py_strip_def 1 2)
qed

lemma set_butlast_filter: "set (butlast (filter P xs)) \<subseteq> set (butlast xs)"
proof (cases xs rule: rev_cases)
  case Nil
  then show ?thesis by simp
next
  case (snoc ys y)
  show ?thesis
  proof (cases "P y")
    case True
    with snoc show ?thesis by auto
  next
    case False
    have "set (butlast (filter P ys)) \<subseteq> set (filter P ys)"
      by (auto dest: in_set_butlastD)
    with snoc False show ?thesis by auto
  qed
qed

lemma rfind_scan_range:
  "rfind_scan tx sub lo k = - 1 \<or>
   (int lo \<le> rfind_scan tx sub lo k \<and> rfind_scan tx sub lo k \<le> int (lo + k))"
  by (induction k) auto

lemma rfind_scan_absent:
  assumes "c \<in> set sub" and "c \<notin> set tx"
  shows "rfind_scan tx sub lo k = - 1"
proof -
  have "take (length sub) (drop i tx) \<noteq> sub" for i
  proof
    assume "take (length sub) (drop i tx) = sub"
    then have "set sub \<subseteq> set (drop i tx)"
      by (metis set_take_subset)
    then have "set sub \<subseteq> set tx"
      using set_drop_subset by fastforce
    with assms show False by auto
  qed
  then show ?thesis by (induction k) auto
qed

lemma py_rfind_absent:
  "c \<in> set sub \<Longrightarrow> c \<notin> set tx \<Longrightarrow> py_rfind tx sub start end = - 1"
  by (simp add: py_rfind_def Let_def rfind_scan_absent)

lemma py_rfind_range:
  "py_rfind tx sub start end = - 1 \<or>
   (0 \<le> py_rfind tx sub start end \<and> start \<le> py_rfind tx sub start end \<and>
    py_rfind tx sub start end + int (length sub) \<le> int (length tx) \<and>
    (0 \<le> end \<longrightarrow> py_rfind tx sub start end + int (length sub) \<le> end))"
proof -
  define e where "e = (if end > int (length tx) then int (length tx)
    else if end < 0 then max 0 (end + int (length tx)) else end)"
  define s where "s = (if start < 0 then max 0 (start + int (length tx)) else start)"
  define k where "k = nat (e - s - int (length sub))"
  have r: "py_rfind tx sub start end =
      (if e - s < int (length sub) then - 1 else rfind_scan tx sub (nat s) k)"
    unfolding py_rfind_def Let_def e_def s_def k_def by (rule refl)
  show ?thesis
  proof (cases "e - s < int (length sub)")
    case True
    then show ?thesis by (simp add: r)
  next
    case False
    have s0: "0 \<le> s" "start \<le> s" by (auto simp: s_def)
    have e0: "e \<le> int (length tx)" "0 \<le> end \<Longrightarrow> e \<le> end" by (auto simp: e_def)
    have k0: "int (nat s + k) = e - int (length sub)" using False s0 by (simp add: k_def)
    from rfind_scan_range [of tx sub "nat s" k] show ?thesis
      using False s0 e0 k0 by (auto simp: r)
  qed
qed

section \<open>Facts about the chunker's loop\<close>

lemma length_hunk_marker: "length hunk_marker = 4"
  by (simp add: hunk_marker_def py_def)

lemma length_file_marker: "length file_marker = 13"
  by (simp add: file_marker_def py_def)

lemma split_point_cases:
  "split_point tx m start = min (start + m) (int (length tx)) \<or>
   (start + 1000 < split_point tx m start \<and>
    split_point tx m start + 4 \<le> int (length tx) \<and>
    (0 \<le> min (start + m) (int (length tx)) \<longrightarrow>
       split_point tx m start + 4 \<le> min (start + m) (int (length tx))))"
  using py_rfind_range [of tx hunk_marker start "min (start + m) (int (length tx))"]
    py_rfind_range [of tx file_marker start "min (start + m) (int (length tx))"]
  by (auto simp: split_point_def Let_def length_hunk_marker length_file_marker)

lemma split_point_pos:
  assumes "0 < m" "0 \<le> start" "start < int (length tx)"
  shows "start < split_point tx m start" "split_point tx m start \<le> start + m"
    "split_point tx m start \<le> int (length tx)"
  using split_point_cases [of tx m start] assms by auto

lemma split_point_small:
  assumes "0 < m" "m \<le> 1000" "0 \<le> start"
  shows "split_point tx m start = min (start + m) (int (length tx))"
  using split_point_cases [of tx m start] assms by auto

lemma split_point_nonpos:
  assumes "m \<le> 0" "start < int (length tx)"
  shows "split_point tx m start < int (length tx)"
  using split_point_cases [of tx m start] assms by auto


lemma py_slice_nonneg:
  assumes "0 \<le> a" "a \<le> b" "b \<le> int (length xs)"
  shows "py_slice xs a b = take (nat b - nat a) (drop (nat a) xs)"
  using assms by (simp add: py_slice_def py_index_def Let_def min_def)

lemma take_drop_append_drop:
  "a \<le> b \<Longrightarrow> take (b - a) (drop a xs) @ drop b xs = drop a xs"
  by (metis add_diff_inverse_nat append_take_drop_id drop_drop not_less add.commute)

lemma chunk_loop_pieces:
  assumes m: "0 < m"
  shows "0 \<le> start \<Longrightarrow> start \<le> int (length tx) \<Longrightarrow>
    \<exists>ps. chunk_loop tx m chunks start = Some (chunks @ ps) \<and>
         concat ps = drop (nat start) tx \<and>
         (\<forall>p\<in>set ps. p \<noteq> [] \<and> int (length p) \<le> m) \<and>
         (m \<le> 1000 \<longrightarrow> (\<forall>p\<in>set (butlast ps). int (length p) = m)) \<and>
         (ps = [] \<longleftrightarrow> \<not> start < int (length tx))"
proof (induction "nat (int (length tx) - start)" arbitrary: start chunks rule: less_induct)
  case less
  show ?case
  proof (cases "start < int (length tx)")
    case False
    then have "chunk_loop tx m chunks start = Some chunks"
      by (subst chunk_loop.simps) simp
    moreover from False less.prems have "drop (nat start) tx = []" by simp
    ultimately show ?thesis using False by simp
  next
    case True
    define h where "h = split_point tx m start"
    define p where "p = py_slice tx start h"
    have hb: "start < h" "h \<le> start + m" "h \<le> int (length tx)"
      using split_point_pos [OF m less.prems(1) True] by (simp_all add: h_def)
    have p_eq: "p = take (nat h - nat start) (drop (nat start) tx)"
      unfolding p_def using less.prems(1) hb by (intro py_slice_nonneg) simp_all
    have p_len: "int (length p) = h - start"
      using less.prems(1) hb by (simp add: p_eq)
    have step: "chunk_loop tx m chunks start = chunk_loop tx m (chunks @ [p]) h"
      by (subst chunk_loop.simps) (simp add: True h_def p_def Let_def)
    have "nat (int (length tx) - h) < nat (int (length tx) - start)"
      using hb True by simp
    from less.hyps [OF this, of "chunks @ [p]"] hb less.prems(1)
    obtain ps where ps: "chunk_loop tx m (chunks @ [p]) h = Some ((chunks @ [p]) @ ps)"
      "concat ps = drop (nat h) tx"
      "\<forall>q\<in>set ps. q \<noteq> [] \<and> int (length q) \<le> m"
      "m \<le> 1000 \<longrightarrow> (\<forall>q\<in>set (butlast ps). int (length q) = m)"
      "ps = [] \<longleftrightarrow> \<not> h < int (length tx)"
      by auto
    have c: "concat (p # ps) = drop (nat start) tx"
      using ps(2) less.prems(1) hb by (simp add: p_eq take_drop_append_drop)
    have b: "m \<le> 1000 \<longrightarrow> (\<forall>q\<in>set (butlast (p # ps)). int (length q) = m)"
    proof (cases "ps = []")
      case True
      then show ?thesis by simp
    next
      case False
      with ps(5) have "h < int (length tx)" by simp
      then have "m \<le> 1000 \<longrightarrow> int (length p) = m"
        using split_point_small [OF m _ less.prems(1), of tx] p_len by (auto simp: h_def)
      with ps(4) False show ?thesis by simp
    qed
    have "chunk_loop tx m chunks start = Some (chunks @ (p # ps))"
      using step ps(1) by simp
    moreover have "\<forall>q\<in>set (p # ps). q \<noteq> [] \<and> int (length q) \<le> m"
      using ps(3) p_len hb by auto
    ultimately show ?thesis using c b True by blast
  qed
qed

lemma chunk_loop_diverges_aux:
  assumes "chunk_loop tx m chunks start = Some y"
  shows "0 < m \<or> int (length tx) \<le> start"
proof (rule chunk_loop.raw_induct
    [where P = "\<lambda>tx m chunks start y. 0 < m \<or> int (length tx) \<le> start", OF _ assms])
  fix loop :: "pystr \<Rightarrow> int \<Rightarrow> pystr list \<Rightarrow> int \<Rightarrow> pystr list option"
  fix tx m chunks start y
  assume IH: "\<And>tx m chunks start y. loop tx m chunks start = Some y \<Longrightarrow>
      0 < m \<or> int (length tx) \<le> start"
  assume body: "(if start < int (length tx)
      then let h = split_point tx m start
           in loop tx m (chunks @ [py_slice tx start h]) h
      else Some chunks) = Some y"
  show "0 < m \<or> int (length tx) \<le> start"
  proof (rule ccontr)
    assume "\<not> (0 < m \<or> int (length tx) \<le> start)"
    then have a: "m \<le> 0" "start < int (length tx)" by simp_all
    then have "loop tx m (chunks @ [py_slice tx start (split_point tx m start)])
        (split_point tx m start) = Some y"
      using body by (simp add: Let_def)
    then have "0 < m \<or> int (length tx) \<le> split_point tx m start" by (rule IH)
    with split_point_nonpos [OF a] a show False by simp
  qed
qed

lemma chunk_loop_diverges:
  "m \<le> 0 \<Longrightarrow> start < int (length tx) \<Longrightarrow> chunk_loop tx m chunks start = None"
  using chunk_loop_diverges_aux [of tx m chunks start]
  by (cases "chunk_loop tx m chunks start") auto

lemma chunk_text_long:
  assumes "0 < m" "m < int (length tx)"
  shows "\<exists>ps. concat ps = tx \<and> ps \<noteq> [] \<and>
      chunk_text tx m = Some (filter (\<lambda>c. py_strip c \<noteq> []) ps) \<and>
      (\<forall>p\<in>set ps. p \<noteq> [] \<and> int (length p) \<le> m) \<and>
      (m \<le> 1000 \<longrightarrow> (\<forall>p\<in>set (butlast ps). int (length p) = m))"
proof -
  from chunk_loop_pieces [OF assms(1), of 0 tx "[]"] assms
  obtain ps where ps: "chunk_loop tx m [] 0 = Some ps" "concat ps = tx"
    "\<forall>p\<in>set ps. p \<noteq> [] \<and> int (length p) \<le> m"
    "m \<le> 1000 \<longrightarrow> (\<forall>p\<in>set (butlast ps). int (length p) = m)"
    "ps \<noteq> []"
    by auto
  have "chunk_text tx m = Some (filter (\<lambda>c. py_strip c \<noteq> []) ps)"
    using assms(2) ps(1) by (simp add: chunk_text_def)
  with ps show ?thesis by blast
qed

text \<open>
  A text without a marker: both searches give \<open>-1\<close>, every split point is the end of the
  window, and the \<open>k\<close>-th piece of the loop is \<^verbatim>\<open>text[k*max_chars:(k+1)*max_chars]\<close>.
\<close>

lemma rfind_scan_no_match:
  "\<forall>i. take (length sub) (drop i tx) \<noteq> sub \<Longrightarrow> rfind_scan tx sub lo k = - 1"
  by (induction k) auto

lemma py_rfind_no_match:
  "\<forall>i. take (length sub) (drop i tx) \<noteq> sub \<Longrightarrow> py_rfind tx sub start end = - 1"
  by (simp add: py_rfind_def Let_def rfind_scan_no_match)

lemma split_point_no_marker:
  assumes "\<forall>i. take 4 (drop i tx) \<noteq> hunk_marker \<and> take 13 (drop i tx) \<noteq> file_marker"
  shows "split_point tx m start = min (start + m) (int (length tx))"
proof -
  have "py_rfind tx hunk_marker a b = - 1" for a b
    using assms by (intro py_rfind_no_match) (simp add: length_hunk_marker)
  moreover have "py_rfind tx file_marker a b = - 1" for a b
    using assms by (intro py_rfind_no_match) (simp add: length_file_marker)
  ultimately show ?thesis by (simp add: split_point_def)
qed

lemma py_slice_clip:
  "0 \<le> a \<Longrightarrow> py_slice xs a (min b (int (length xs))) = py_slice xs a b"
  by (auto simp: py_slice_def py_index_def Let_def min_def)

lemma chunk_loop_hard_cuts:
  assumes m: "0 < m"
    and hard: "\<forall>s\<ge>0. split_point tx m s = min (s + m) (int (length tx))"
  shows "0 \<le> start \<Longrightarrow> start \<le> int (length tx) \<Longrightarrow>
    chunk_loop tx m chunks start = Some (chunks @ ps) \<Longrightarrow>
    \<forall>k<length ps. ps ! k = py_slice tx (start + int k * m) (start + int k * m + m)"
proof (induction "nat (int (length tx) - start)" arbitrary: start chunks ps rule: less_induct)
  case less
  show ?case
  proof (cases "start < int (length tx)")
    case False
    then have "chunk_loop tx m chunks start = Some chunks"
      by (subst chunk_loop.simps) simp
    with less.prems(3) show ?thesis by simp
  next
    case True
    define h where "h = split_point tx m start"
    define p where "p = py_slice tx start h"
    have h_eq: "h = min (start + m) (int (length tx))"
      using hard less.prems(1) by (simp add: h_def)
    have hb: "start < h" "h \<le> int (length tx)" using h_eq m True by simp_all
    have p_eq: "p = py_slice tx start (start + m)"
      unfolding p_def h_eq using less.prems(1) by (rule py_slice_clip)
    have step: "chunk_loop tx m chunks start = chunk_loop tx m (chunks @ [p]) h"
      by (subst chunk_loop.simps) (simp add: True h_def p_def Let_def)
    from chunk_loop_pieces [OF m, of h tx "chunks @ [p]"] hb less.prems(1)
    obtain qs where qs: "chunk_loop tx m (chunks @ [p]) h = Some ((chunks @ [p]) @ qs)"
      "qs = [] \<longleftrightarrow> \<not> h < int (length tx)"
      by auto
    with step less.prems(3) have ps: "ps = p # qs" by simp
    have "nat (int (length tx) - h) < nat (int (length tx) - start)"
      using hb True by simp
    from less.hyps [OF this _ hb(2) qs(1)] hb less.prems(1)
    have IH: "\<forall>k<length qs. qs ! k = py_slice tx (h + int k * m) (h + int k * m + m)"
      by simp
    show ?thesis
    proof (intro allI impI)
      fix k assume k: "k < length ps"
      show "ps ! k = py_slice tx (start + int k * m) (start + int k * m + m)"
      proof (cases k)
        case 0
        then show ?thesis by (simp add: ps p_eq)
      next
        case (Suc j)
        with k ps have j: "j < length qs" by simp
        then have "qs \<noteq> []" by auto
        with qs(2) have "h < int (length tx)" by simp
        with h_eq have "h = start + m" by simp
        with IH j Suc show ?thesis by (simp add: ps algebra_simps)
      qed
    qed
  qed
qed

lemma chunk_text_pieces:
  assumes "0 < m" "m < int (length tx)"
  shows "\<exists>ps. chunk_loop tx m [] 0 = Some ps \<and> concat ps = tx \<and>
      chunk_text tx m = Some (filter (\<lambda>c. py_strip c \<noteq> []) ps) \<and>
      (\<forall>p\<in>set ps. p \<noteq> [] \<and> int (length p) \<le> m)"
proof -
  from chunk_loop_pieces [OF assms(1), of 0 tx "[]"] assms
  obtain ps where ps: "chunk_loop tx m [] 0 = Some ps" "concat ps = tx"
    "\<forall>p\<in>set ps. p \<noteq> [] \<and> int (length p) \<le> m"
    by auto
  have "chunk_text tx m = Some (filter (\<lambda>c. py_strip c \<noteq> []) ps)"
    using assms(2) ps(1) by (simp add: chunk_text_def)
  with ps show ?thesis by blast
qed

lemma no_backslash_no_marker:
  assumes "92 \<notin> set tx"
  shows "\<forall>i. take 4 (drop i tx) \<noteq> hunk_marker \<and> take 13 (drop i tx) \<noteq> file_marker"
proof (intro allI conjI notI)
  fix i assume "take 4 (drop i tx) = hunk_marker"
  then have "92 \<in> set (take 4 (drop i tx))" by (simp add: hunk_marker_def)
  then show False using assms by (meson in_set_dropD in_set_takeD)
next
  fix i assume "take 13 (drop i tx) = file_marker"
  then have "92 \<in> set (take 13 (drop i tx))" by (simp add: file_marker_def)
  then show False using assms by (meson in_set_dropD in_set_takeD)
qed

text \<open>Dropping a non-empty piece makes the concatenation shorter.\<close>

lemma length_concat_filter_le: "length (concat (filter P ps)) \<le> length (concat ps)"
  by (induction ps) auto

lemma length_concat_filter_less:
  "\<forall>p\<in>set ps. p \<noteq> [] \<Longrightarrow> \<exists>p\<in>set ps. \<not> P p \<Longrightarrow>
   length (concat (filter P ps)) < length (concat ps)"
proof (induction ps)
  case Nil
  then show ?case by simp
next
  case (Cons p ps)
  show ?case
  proof (cases "P p")
    case True
    with Cons show ?thesis by auto
  next
    case False
    from Cons.prems(1) have p: "0 < length p" by simp
    have l: "length (concat (filter P (p # ps))) = length (concat (filter P ps))"
      using False by simp
    have r: "length (concat (p # ps)) = length p + length (concat ps)" by simp
    show ?thesis unfolding l r using p length_concat_filter_le [of P ps] by linarith
  qed
qed

section \<open>Claims about the chunker\<close>

text \<open>
  Claim C8. A text that is no longer than \<open>max_chars\<close> comes back as the one-element
  sequence holding the text itself. (This holds for the empty text as well.)
\<close>

theorem chunk_text_short:
  "int (length text) \<le> max_chars \<Longrightarrow> chunk_text text max_chars = Some [text]"
  by (simp add: chunk_text_def)

theorem chunk_text_short_witness:
  "py ''@@ -1 +1 @@'' \<noteq> [] \<and> chunk_text (py ''@@ -1 +1 @@'') 20 = Some [py ''@@ -1 +1 @@'']"
  using chunk_text_short [of "py ''@@ -1 +1 @@''" 20] by (simp add: py_def)

text \<open>
  Claim C3. With \<open>max_chars \<le> 0\<close> and a non-empty text the loop never ends: the split
  point stays below the length of the text (\<open>chunk_loop_diverges\<close>), so the start offset
  never reaches it. At the text \<open>a\<close> with \<open>max_chars = 0\<close> the split point is the start
  offset itself and \<^verbatim>\<open>chunk_text\<close> does not return.
\<close>

theorem chunk_text_zero_diverges: "chunk_text (py ''a'') 0 = None"
  by (simp add: chunk_text_def py_def chunk_loop_diverges)

text \<open>
  Claim C10. With \<open>0 < max_chars \<le> 1000\<close> and a longer text, the split point of every
  pass is the end of the window (no marker can lie more than 1000 characters after the
  start of a window that short), \<^verbatim>\<open>chunk_text\<close> returns, and every returned chunk but
  the last has exactly \<open>max_chars\<close> characters.
\<close>

theorem chunk_text_small_window:
  assumes "0 < max_chars" "max_chars \<le> 1000" "max_chars < int (length text)"
  shows "(\<forall>start\<ge>0. split_point text max_chars start =
            min (start + max_chars) (int (length text))) \<and>
         (\<exists>cs. chunk_text text max_chars = Some cs \<and>
            (\<forall>c\<in>set (butlast cs). int (length c) = max_chars))"
proof
  show "\<forall>start\<ge>0. split_point text max_chars start =
      min (start + max_chars) (int (length text))"
    using assms by (simp add: split_point_small)
next
  from chunk_text_long [OF assms(1,3)] assms(2)
  obtain ps where ps: "chunk_text text max_chars = Some (filter (\<lambda>c. py_strip c \<noteq> []) ps)"
    "\<forall>p\<in>set (butlast ps). int (length p) = max_chars"
    by auto
  have "\<forall>c\<in>set (butlast (filter (\<lambda>c. py_strip c \<noteq> []) ps)). int (length c) = max_chars"
    using ps(2) set_butlast_filter [of "\<lambda>c. py_strip c \<noteq> []" ps] by blast
  with ps(1) show "\<exists>cs. chunk_text text max_chars = Some cs \<and>
      (\<forall>c\<in>set (butlast cs). int (length c) = max_chars)"
    by blast
qed

theorem chunk_text_small_window_witness:
  "split_point (py ''abcdefg'') 3 3 = 6 \<and>
   (\<exists>cs. chunk_text (py ''abcdefg'') 3 = Some cs \<and>
      (\<forall>c\<in>set (butlast cs). int (length c) = 3))"
  using chunk_text_small_window [of 3 "py ''abcdefg''"] by (simp add: py_def)

text \<open>
  Claim C9, as the code has it. For \<open>0 < max_chars < len(text)\<close> the loop returns its
  pieces \<open>ps\<close>; they make up the text (their concatenation is the text), each of them is
  non-empty and at most \<open>max_chars\<close> long, and \<^verbatim>\<open>chunk_text\<close> returns them without
  the ones that are empty after trimming. A text that is a single hunk holds neither
  marker; then the split point of every pass is the end of the window,
  \<^verbatim>\<open>min(start + max_chars, len(text))\<close>, and the \<open>k\<close>-th piece is
  \<^verbatim>\<open>text[k*max_chars:(k+1)*max_chars]\<close>: the hunk is cut every \<open>max_chars\<close> characters.
\<close>

theorem chunk_text_bounded:
  assumes "0 < max_chars" "max_chars < int (length text)"
  shows "\<exists>ps. chunk_loop text max_chars [] 0 = Some ps \<and> concat ps = text \<and>
     chunk_text text max_chars = Some (filter (\<lambda>c. py_strip c \<noteq> []) ps) \<and>
     (\<forall>p\<in>set ps. p \<noteq> [] \<and> int (length p) \<le> max_chars) \<and>
     ((\<forall>i. take 4 (drop i text) \<noteq> hunk_marker \<and> take 13 (drop i text) \<noteq> file_marker) \<longrightarrow>
        (\<forall>start\<ge>0. split_point text max_chars start =
           min (start + max_chars) (int (length text))) \<and>
        (\<forall>k<length ps. ps ! k =
           py_slice text (int k * max_chars) (int k * max_chars + max_chars)))"
proof -
  from chunk_text_pieces [OF assms]
  obtain ps where ps: "chunk_loop text max_chars [] 0 = Some ps" "concat ps = text"
    "chunk_text text max_chars = Some (filter (\<lambda>c. py_strip c \<noteq> []) ps)"
    "\<forall>p\<in>set ps. p \<noteq> [] \<and> int (length p) \<le> max_chars"
    by blast
  have "(\<forall>start\<ge>0. split_point text max_chars start =
           min (start + max_chars) (int (length text))) \<and>
        (\<forall>k<length ps. ps ! k =
           py_slice text (int k * max_chars) (int k * max_chars + max_chars))"
    if nm: "\<forall>i. take 4 (drop i text) \<noteq> hunk_marker \<and> take 13 (drop i text) \<noteq> file_marker"
  proof -
    have hard: "\<forall>s\<ge>0. split_point text max_chars s =
        min (s + max_chars) (int (length text))"
      using split_point_no_marker [OF nm] by simp
    from chunk_loop_hard_cuts [OF assms(1) hard, of 0 "[]" ps] ps(1)
    show ?thesis using hard by simp
  qed
  with ps show ?thesis by blast
qed

theorem chunk_text_bounded_witness:
  "chunk_text (py ''@@ -1 +1 @@'') 5 = Some [py ''@@ -1'', py '' +1 @'', py ''@''] \<and>
   split_point (py ''@@ -1 +1 @@'') 5 5 = 10"
proof -
  define tx where "tx = py ''@@ -1 +1 @@''"
  have len: "(5::int) < int (length tx)" by (simp add: tx_def py_def)
  have nm: "\<forall>i. take 4 (drop i tx) \<noteq> hunk_marker \<and> take 13 (drop i tx) \<noteq> file_marker"
    by (rule no_backslash_no_marker) (simp add: tx_def py_def)
  from chunk_text_bounded [of 5 tx] len nm
  obtain ps where ps: "chunk_loop tx 5 [] 0 = Some ps"
    "chunk_text tx 5 = Some (filter (\<lambda>c. py_strip c \<noteq> []) ps)"
    "\<forall>start\<ge>0. split_point tx 5 start = min (start + 5) (int (length tx))"
    by auto
  have sp: "split_point tx 5 start = min (start + 5) 11" if "0 \<le> start" for start
    using ps(3) that by (simp add: tx_def py_def)
  have n: "int (length tx) = 11" by (simp add: tx_def py_def)
  have "chunk_loop tx 5 [] 0 = chunk_loop tx 5 [py_slice tx 0 5] 5"
    by (subst chunk_loop.simps) (simp add: n sp)
  also have "\<dots> = chunk_loop tx 5 [py_slice tx 0 5, py_slice tx 5 10] 10"
    by (subst chunk_loop.simps) (simp add: n sp)
  also have "\<dots> = chunk_loop tx 5 [py_slice tx 0 5, py_slice tx 5 10, py_slice tx 10 11] 11"
    by (subst chunk_loop.simps) (simp add: n sp)
  also have "\<dots> = Some [py_slice tx 0 5, py_slice tx 5 10, py_slice tx 10 11]"
    by (subst chunk_loop.simps) (simp add: n)
  also have "\<dots> = Some [py ''@@ -1'', py '' +1 @'', py ''@'']"
    by (simp add: tx_def py_def py_slice_def py_index_def)
  finally have "chunk_loop tx 5 [] 0 = Some [py ''@@ -1'', py '' +1 @'', py ''@'']" .
  with ps(1) have "ps = [py ''@@ -1'', py '' +1 @'', py ''@'']" by simp
  with ps(2) have "chunk_text tx 5 = Some [py ''@@ -1'', py '' +1 @'', py ''@'']"
    by (simp add: py_def py_strip_def is_space_def)
  moreover have "split_point tx 5 5 = 10" by (simp add: sp)
  ultimately show ?thesis by (simp only: tx_def)
qed

text \<open>
  Claim C9 as stated asks for some text, with \<open>0 < max_chars < len(text)\<close>, one of whose
  returned chunks is longer than \<open>max_chars\<close>. There is none.
\<close>

theorem chunk_text_no_oversized_chunk:
  "\<not> (\<exists>text max_chars cs. 0 < max_chars \<and> max_chars < int (length text) \<and>
        chunk_text text max_chars = Some cs \<and> (\<exists>c\<in>set cs. max_chars < int (length c)))"
proof
  assume "\<exists>text max_chars cs. 0 < max_chars \<and> max_chars < int (length text) \<and>
        chunk_text text max_chars = Some cs \<and> (\<exists>c\<in>set cs. max_chars < int (length c))"
  then obtain tx m cs c where a: "0 < m" "m < int (length tx)" "chunk_text tx m = Some cs"
    "c \<in> set cs" "m < int (length c)"
    by blast
  from chunk_text_long [OF a(1,2)] a(3,4) have "int (length c) \<le> m" by auto
  with a(5) show False by simp
qed

text \<open>
  Claim C1 as stated fails on the text \<open>a b\<close> with \<open>max_chars = 1\<close>: the middle piece is a
  blank and the final filter drops it.
\<close>

theorem chunk_text_drops_blank_piece:
  "chunk_text (py ''a b'') 1 = Some [py ''a'', py ''b''] \<and>
   concat [py ''a'', py ''b''] \<noteq> py ''a b''"
  by (simp add: chunk_text_def py_def chunk_loop.simps split_point_def py_rfind_def
      hunk_marker_def file_marker_def py_slice_def py_index_def py_strip_def is_space_def)

text \<open>
  Claim C1, as the code has it, for a non-empty text and \<open>max_chars > 0\<close>. A text that is
  no longer than \<open>max_chars\<close> is returned as \<open>[text]\<close>. For a longer text the loop
  returns its pieces \<open>ps\<close>, whose concatenation is the text exactly, and
  \<^verbatim>\<open>chunk_text\<close> returns these pieces, in order, without the ones that are empty after
  trimming: all of them when none is blank, and the concatenation of the returned chunks is
  the text if and only if none is blank.
\<close>

theorem chunk_text_concat:
  assumes "text \<noteq> []" "0 < max_chars"
  shows "(int (length text) \<le> max_chars \<longrightarrow> chunk_text text max_chars = Some [text]) \<and>
     (max_chars < int (length text) \<longrightarrow>
        (\<exists>ps. chunk_loop text max_chars [] 0 = Some ps \<and> concat ps = text \<and>
           chunk_text text max_chars = Some (filter (\<lambda>c. py_strip c \<noteq> []) ps) \<and>
           ((\<forall>p\<in>set ps. py_strip p \<noteq> []) \<longrightarrow> chunk_text text max_chars = Some ps) \<and>
           (concat (filter (\<lambda>c. py_strip c \<noteq> []) ps) = text \<longleftrightarrow>
              (\<forall>p\<in>set ps. py_strip p \<noteq> []))))"
proof (intro conjI impI)
  assume "int (length text) \<le> max_chars"
  then show "chunk_text text max_chars = Some [text]" by (simp add: chunk_text_def)
next
  assume l: "max_chars < int (length text)"
  from chunk_text_pieces [OF assms(2) l]
  obtain ps where ps: "chunk_loop text max_chars [] 0 = Some ps" "concat ps = text"
    "chunk_text text max_chars = Some (filter (\<lambda>c. py_strip c \<noteq> []) ps)"
    and ne: "\<forall>p\<in>set ps. p \<noteq> []"
    by blast
  have all: "chunk_text text max_chars = Some ps" if "\<forall>p\<in>set ps. py_strip p \<noteq> []"
    using that ps(3) by (simp add: filter_id_conv)
  have iff: "concat (filter (\<lambda>c. py_strip c \<noteq> []) ps) = text \<longleftrightarrow>
      (\<forall>p\<in>set ps. py_strip p \<noteq> [])"
  proof
    assume e: "concat (filter (\<lambda>c. py_strip c \<noteq> []) ps) = text"
    show "\<forall>p\<in>set ps. py_strip p \<noteq> []"
    proof (rule ccontr)
      assume "\<not> (\<forall>p\<in>set ps. py_strip p \<noteq> [])"
      then have "\<exists>p\<in>set ps. \<not> py_strip p \<noteq> []" by simp
      from length_concat_filter_less [OF ne this] e ps(2) show False by simp
    qed
  next
    assume "\<forall>p\<in>set ps. py_strip p \<noteq> []"
    then have "filter (\<lambda>c. py_strip c \<noteq> []) ps = ps" by (simp add: filter_id_conv)
    with ps(2) show "concat (filter (\<lambda>c. py_strip c \<noteq> []) ps) = text" by simp
  qed
  from ps all iff
  show "\<exists>ps. chunk_loop text max_chars [] 0 = Some ps \<and> concat ps = text \<and>
      chunk_text text max_chars = Some (filter (\<lambda>c. py_strip c \<noteq> []) ps) \<and>
      ((\<forall>p\<in>set ps. py_strip p \<noteq> []) \<longrightarrow> chunk_text text max_chars = Some ps) \<and>
      (concat (filter (\<lambda>c. py_strip c \<noteq> []) ps) = text \<longleftrightarrow>
         (\<forall>p\<in>set ps. py_strip p \<noteq> []))"
    by blast
qed

theorem chunk_text_concat_witness:
  "chunk_text (py ''a  b'') 2 = Some [py ''a '', py '' b''] \<and>
   concat [py ''a '', py '' b''] = py ''a  b'' \<and>
   chunk_text (py ''ab'') 2 = Some [py ''ab'']"
proof -
  define tx where "tx = py ''a  b''"
  have ne: "tx \<noteq> []" and len: "(2::int) < int (length tx)" by (simp_all add: tx_def py_def)
  from chunk_text_concat [OF ne, of 2] len
  obtain ps where ps: "chunk_loop tx 2 [] 0 = Some ps" "concat ps = tx"
    "(\<forall>p\<in>set ps. py_strip p \<noteq> []) \<longrightarrow> chunk_text tx 2 = Some ps"
    by auto
  have "chunk_loop tx 2 [] 0 = Some [py ''a '', py '' b'']"
    by (simp add: tx_def py_def chunk_loop.simps split_point_def py_rfind_def
        hunk_marker_def file_marker_def py_slice_def py_index_def)
  with ps(1) have e: "ps = [py ''a '', py '' b'']" by simp
  have "\<forall>p\<in>set ps. py_strip p \<noteq> []"
    by (simp add: e py_def py_strip_def is_space_def)
  with ps(3) e have 1: "chunk_text tx 2 = Some [py ''a '', py '' b'']" by simp
  have 2: "concat [py ''a '', py '' b''] = tx" using ps(2) e by simp
  have 3: "chunk_text (py ''ab'') 2 = Some [py ''ab'']"
    using chunk_text_concat [of "py ''ab''" 2] by (simp add: py_def)
  from 1 2 3 show ?thesis by (simp only: tx_def)
qed

text \<open>
  Claim C4 as stated fails twice. The one-blank text with \<open>max_chars = 1\<close> is returned as
  it is, a chunk that is empty after trimming; the two-blank text with \<open>max_chars = 1\<close>
  gives the empty sequence although the text is not empty.
\<close>

theorem chunk_text_blank_counterexample:
  "chunk_text (py '' '') 1 = Some [py '' ''] \<and> py_strip (py '' '') = [] \<and>
   chunk_text (py ''  '') 1 = Some [] \<and> py ''  '' \<noteq> []"
  by (simp add: chunk_text_def py_def chunk_loop.simps split_point_def py_rfind_def
      hunk_marker_def file_marker_def py_slice_def py_index_def py_strip_def is_space_def)

text \<open>
  Claim C4, as the code has it. For \<open>max_chars > 0\<close> the call returns; every returned
  chunk is non-empty after trimming when the text is longer than \<open>max_chars\<close> or is itself
  non-empty after trimming; and the returned sequence is empty only if the text is empty
  after trimming.
\<close>

theorem chunk_text_nonblank:
  assumes "0 < max_chars"
  shows "\<exists>cs. chunk_text text max_chars = Some cs \<and>
     ((max_chars < int (length text) \<or> py_strip text \<noteq> []) \<longrightarrow>
        (\<forall>c\<in>set cs. py_strip c \<noteq> [])) \<and>
     (cs = [] \<longrightarrow> py_strip text = [])"
proof (cases "int (length text) \<le> max_chars")
  case True
  then have "chunk_text text max_chars = Some [text]" by (simp add: chunk_text_def)
  with True show ?thesis by simp
next
  case False
  then have l: "max_chars < int (length text)" by simp
  from chunk_text_long [OF assms l]
  obtain ps where ps: "concat ps = text"
    "chunk_text text max_chars = Some (filter (\<lambda>c. py_strip c \<noteq> []) ps)"
    by blast
  have "py_strip text = []" if "filter (\<lambda>c. py_strip c \<noteq> []) ps = []"
  proof -
    from that have "\<forall>p\<in>set ps. py_strip p = []" by (simp add: filter_empty_conv)
    then have "\<forall>p\<in>set ps. \<forall>c\<in>set p. is_space c" by (simp add: py_strip_Nil_iff)
    then have "\<forall>c\<in>set (concat ps). is_space c" by auto
    then show ?thesis unfolding ps(1) by (simp add: py_strip_Nil_iff)
  qed
  with ps(2) show ?thesis by auto
qed

theorem chunk_text_nonblank_witness:
  "\<exists>cs. chunk_text (py ''a b'') 1 = Some cs \<and> (\<forall>c\<in>set cs. py_strip c \<noteq> []) \<and>
     (cs = [] \<longrightarrow> py_strip (py ''a b'') = [])"
  using chunk_text_nonblank [of 1 "py ''a b''"] by (simp add: py_def)

lemma split_point_no_backslash:
  assumes "92 \<notin> set tx"
  shows "split_point tx m start = min (start + m) (int (length tx))"
proof -
  have "py_rfind tx hunk_marker a b = - 1" for a b
    using assms by (intro py_rfind_absent [of 92]) (simp_all add: hunk_marker_def)
  moreover have "py_rfind tx file_marker a b = - 1" for a b
    using assms by (intro py_rfind_absent [of 92]) (simp_all add: file_marker_def)
  ultimately show ?thesis by (simp add: split_point_def)
qed

lemma py_strip_nonblank: "c \<in> set s \<Longrightarrow> \<not> is_space c \<Longrightarrow> py_strip s \<noteq> []"
  by (auto simp: py_strip_Nil_iff)

text \<open>
  Claim C2. The text of 1001 letters \<open>a\<close>, a newline, \<open>@@\<close> and 20 letters \<open>b\<close> has a
  newline followed by \<open>@@\<close> at index 1001, inside the first window of \<open>max_chars = 1010\<close>
  and more than 1000 characters after its start. The code searches for a backslash and the
  letter \<open>n\<close> instead of a newline, finds nothing, and cuts at the window's end: the first
  chunk has 1010 characters, not 1001.
\<close>

theorem chunk_text_newline_marker_ignored:
  "take 3 (drop 1001 (replicate 1001 97 @ [10, 64, 64] @ replicate 20 98)) = [10, 64, 64::nat] \<and>
   chunk_text (replicate 1001 97 @ [10, 64, 64] @ replicate 20 98) 1010 =
     Some [replicate 1001 97 @ [10, 64, 64] @ replicate 6 98, replicate 14 98]"
proof -
  define tx :: pystr where "tx = replicate 1001 97 @ [10, 64, 64] @ replicate 20 98"
  define c1 :: pystr where "c1 = replicate 1001 97 @ [10, 64, 64] @ replicate 6 98"
  define c2 :: pystr where "c2 = replicate 14 98"
  have len: "length tx = 1024" by (simp add: tx_def)
  have "92 \<notin> set tx" by (simp add: tx_def)
  then have sp: "split_point tx 1010 start = min (start + 1010) 1024" for start
    by (simp add: split_point_no_backslash len)
  have s1: "py_slice tx 0 1010 = c1"
    by (simp add: py_slice_def py_index_def tx_def c1_def)
  have s2: "py_slice tx 1010 1024 = c2"
    by (simp add: py_slice_def py_index_def tx_def c2_def)
  have "chunk_loop tx 1010 [] 0 = chunk_loop tx 1010 [c1] 1010"
    by (subst chunk_loop.simps) (simp add: len sp s1)
  also have "\<dots> = chunk_loop tx 1010 [c1, c2] 1024"
    by (subst chunk_loop.simps) (simp add: len sp s2)
  also have "\<dots> = Some [c1, c2]"
    by (subst chunk_loop.simps) (simp add: len)
  finally have loop: "chunk_loop tx 1010 [] 0 = Some [c1, c2]" .
  have n1: "py_strip c1 \<noteq> []"
    by (rule py_strip_nonblank [of 97]) (simp_all add: is_space_def c1_def)
  have n2: "py_strip c2 \<noteq> []"
    by (rule py_strip_nonblank [of 98]) (simp_all add: is_space_def c2_def)
  have "chunk_text tx 1010 = Some [c1, c2]"
    by (simp add: chunk_text_def len loop n1 n2)
  then have "chunk_text (replicate 1001 97 @ [10, 64, 64] @ replicate 20 98) 1010 =
      Some [replicate 1001 97 @ [10, 64, 64] @ replicate 6 98, replicate 14 98]"
    by (simp only: tx_def c1_def c2_def)
  moreover have "take 3 (drop 1001 (replicate 1001 97 @ [10, 64, 64] @ replicate 20 98)) =
      [10, 64, 64::nat]"
    by simp
  ultimately show ?thesis by (rule conjI [rotated])
qed

section \<open>Facts about the revision resolver\<close>

lemma get_diff_candidates_trimmed:
  "get_diff_candidates run head_sha cands w = (Some d, w') \<Longrightarrow> py_strip d = d"
proof (induction cands arbitrary: w)
  case Nil
  then show ?case by simp
next
  case (Cons base rest)
  then show ?case
    by (auto simp: py_strip_idem split: prod.splits bool.splits sum.splits)
qed

lemma get_diff_merge_base_trimmed:
  "get_diff_merge_base run base_ref head_sha w = (Some d, w') \<Longrightarrow> py_strip d = d"
  by (auto simp: get_diff_merge_base_def Let_def py_strip_idem
      split: prod.splits sum.splits if_splits)

lemma py_strip_Nil: "py_strip [] = []"
  by (simp add: py_strip_def)

section \<open>Claims about the revision resolver\<close>

text \<open>
  Claim C5, as the code has it, in terms of the outcomes of the git commands. The
  hypotheses only name the return code, the output and the next world of each command of
  \<^verbatim>\<open>get_diff\<close> at the world where the function would run it: the fetch, the
  \<^verbatim>\<open>remote add\<close> and the second fetch; for each of the two candidates the
  \<^verbatim>\<open>rev-parse\<close> and the three-dot diff; the \<^verbatim>\<open>merge-base\<close> and the two-dot diff from
  its trimmed output; the diff of the last commit. Any shell has such outcomes, so the
  statement covers every sequence of them. A strategy succeeds when its commands exit
  with code 0 (and, for the merge base, the trimmed output is not empty). Then
  \<^verbatim>\<open>get_diff\<close> returns a string and no exception leaves it (the one \<^verbatim>\<open>raise\<close> that
  it reaches is the \<^verbatim>\<open>SystemExit\<close> of \<^verbatim>\<open>sh\<close>, and every call of \<^verbatim>\<open>sh\<close> sits in a
  \<^verbatim>\<open>try\<close> that catches it): the string is the trimmed output of the first strategy that
  succeeds, in the world right after that strategy's diff command, and the empty string
  when none succeeds; in every case it is whitespace-trimmed. The witness runs in a world
  that records every command line, where \<open>origin/main\<close> does not exist, the three-dot diff
  against \<open>main\<close> fails, and the merge-base strategy succeeds.
\<close>

theorem get_diff_outcomes:
  assumes fetch1: "run (py ''git fetch --no-tags --depth=1 origin '' @ base_ref) w = ((rf, outf), u1)"
    and remote: "run (py ''git remote add origin .'') u1 = ((ra, outa), u2)"
    and fetch2: "run (py ''git fetch --no-tags --depth=1 origin '' @ base_ref) u2 = ((rg, outg), u3)"
    and refA: "run (py ''git rev-parse --verify --quiet '' @ (py ''origin/'' @ base_ref))
                 (if rf = 0 then u1 else if ra = 0 then u3 else u2) = ((rA, outA), wA)"
    and diffA: "run (py ''git diff --unified=0 --no-color '' @ (py ''origin/'' @ base_ref) @
                  py ''...'' @ head_sha) wA = ((sA, dA), vA)"
    and refB: "run (py ''git rev-parse --verify --quiet '' @ base_ref)
                 (if rA = 0 then vA else wA) = ((rB, outB), wB)"
    and diffB: "run (py ''git diff --unified=0 --no-color '' @ base_ref @ py ''...'' @ head_sha) wB =
                  ((sB, dB), vB)"
    and mbase: "run (py ''git merge-base '' @ head_sha @ py '' '' @ base_ref)
                  (if rB = 0 then vB else wB) = ((rM, outM), wM)"
    and diffM: "run (py ''git diff --unified=0 --no-color '' @ py_strip outM @ py ''..'' @ head_sha) wM =
                  ((sM, dM), vM)"
    and last: "run (py ''git diff --unified=0 --no-color HEAD~1..HEAD'')
                 (if rM = 0 \<and> py_strip outM \<noteq> [] then vM else wM) = ((rL, dL), wL)"
  shows "get_diff run base_ref head_sha w =
           (if rA = 0 \<and> sA = 0 then (Inr (py_strip dA), vA)
            else if rB = 0 \<and> sB = 0 then (Inr (py_strip dB), vB)
            else if rM = 0 \<and> py_strip outM \<noteq> [] \<and> sM = 0 then (Inr (py_strip dM), vM)
            else if rL = 0 then (Inr (py_strip dL), wL)
            else (Inr [], wL)) \<and>
         (\<exists>d. fst (get_diff run base_ref head_sha w) = Inr d \<and> py_strip d = d)"
proof -
  define w1 where "w1 = (if rf = 0 then u1 else if ra = 0 then u3 else u2)"
  define w2 where "w2 = (if rA = 0 then vA else wA)"
  define w3 where "w3 = (if rB = 0 then vB else wB)"
  define w4 where "w4 = (if rM = 0 \<and> py_strip outM \<noteq> [] then vM else wM)"
  have f: "get_diff_fetch run base_ref w = w1"
    using fetch1 remote fetch2 by (simp add: get_diff_fetch_def sh_def w1_def)
  have cB: "get_diff_candidates run head_sha [base_ref] w2 =
      (if rB = 0 \<and> sB = 0 then (Some (py_strip dB), vB) else (None, w3))"
    using refB diffB by (simp add: ref_exists_def sh_def w2_def w3_def)
  have cA: "get_diff_candidates run head_sha [py ''origin/'' @ base_ref, base_ref] w1 =
      (if rA = 0 \<and> sA = 0 then (Some (py_strip dA), vA)
       else get_diff_candidates run head_sha [base_ref] w2)"
    using refA diffA by (simp add: ref_exists_def sh_def w1_def w2_def)
  have m: "get_diff_merge_base run base_ref head_sha w3 =
      (if rM = 0 \<and> py_strip outM \<noteq> [] \<and> sM = 0 then (Some (py_strip dM), vM) else (None, w4))"
    using mbase diffM by (simp add: get_diff_merge_base_def sh_def w3_def w4_def Let_def)
  have l: "get_diff_last_commit run w4 = (if rL = 0 then (py_strip dL, wL) else ([], wL))"
    using last by (simp add: get_diff_last_commit_def sh_def w4_def)
  have g: "get_diff run base_ref head_sha w =
           (if rA = 0 \<and> sA = 0 then (Inr (py_strip dA), vA)
            else if rB = 0 \<and> sB = 0 then (Inr (py_strip dB), vB)
            else if rM = 0 \<and> py_strip outM \<noteq> [] \<and> sM = 0 then (Inr (py_strip dM), vM)
            else if rL = 0 then (Inr (py_strip dL), wL)
            else (Inr [], wL))"
    by (simp add: get_diff_def Let_def f cA cB m l del: get_diff_candidates.simps)
  have "\<exists>d. fst (get_diff run base_ref head_sha w) = Inr d \<and> py_strip d = d"
    unfolding g by (simp add: py_strip_idem py_strip_Nil)
  with g show ?thesis by (rule conjI)
qed

theorem get_diff_outcomes_witness:
  "get_diff
     (\<lambda>c w. (if c = py ''git rev-parse --verify --quiet origin/main'' then (1, [])
             else if c = py ''git diff --unified=0 --no-color main...abc1'' then (128, [])
             else if c = py ''git merge-base abc1 main'' then (0, py ''abc0'' @ [10])
             else (0, py '' +x ''), w @ [c]))
     (py ''main'') (py ''abc1'') [] =
     (Inr (py ''+x''),
      [py ''git fetch --no-tags --depth=1 origin main'',
       py ''git rev-parse --verify --quiet origin/main'',
       py ''git rev-parse --verify --quiet main'',
       py ''git diff --unified=0 --no-color main...abc1'',
       py ''git merge-base abc1 main'',
       py ''git diff --unified=0 --no-color abc0..abc1''])"
proof -
  define run :: "pystr list shell" where
    "run = (\<lambda>c w. (if c = py ''git rev-parse --verify --quiet origin/main'' then (1, [])
             else if c = py ''git diff --unified=0 --no-color main...abc1'' then (128, [])
             else if c = py ''git merge-base abc1 main'' then (0, py ''abc0'' @ [10])
             else (0, py '' +x ''), w @ [c]))"
  define c1 where "c1 = py ''git fetch --no-tags --depth=1 origin main''"
  define c2 where "c2 = py ''git rev-parse --verify --quiet origin/main''"
  define c3 where "c3 = py ''git rev-parse --verify --quiet main''"
  define c4 where "c4 = py ''git diff --unified=0 --no-color main...abc1''"
  define c5 where "c5 = py ''git merge-base abc1 main''"
  define c6 where "c6 = py ''git diff --unified=0 --no-color abc0..abc1''"
  have s: "py_strip (py ''abc0'' @ [10]) = py ''abc0''" "py_strip (py '' +x '') = py ''+x''"
    by (simp_all add: py_strip_def py_def is_space_def)
  have h1: "run (py ''git fetch --no-tags --depth=1 origin '' @ py ''main'') [] =
      ((0, py '' +x ''), [c1])"
    by (simp add: run_def c1_def py_def)
  have h2: "run (py ''git remote add origin .'') [c1] =
      ((0, py '' +x ''), [c1, py ''git remote add origin .''])"
    by (simp add: run_def py_def)
  have h3: "run (py ''git fetch --no-tags --depth=1 origin '' @ py ''main'')
      [c1, py ''git remote add origin .''] =
      ((0, py '' +x ''), [c1, py ''git remote add origin .'', c1])"
    by (simp add: run_def c1_def py_def)
  have h4: "run (py ''git rev-parse --verify --quiet '' @ (py ''origin/'' @ py ''main''))
      (if (0::int) = 0 then [c1] else if (0::int) = 0 then [c1, py ''git remote add origin .'', c1]
       else [c1, py ''git remote add origin .'']) = ((1, []), [c1, c2])"
    by (simp add: run_def c2_def py_def)
  have h5: "run (py ''git diff --unified=0 --no-color '' @ (py ''origin/'' @ py ''main'') @
        py ''...'' @ py ''abc1'') [c1, c2] =
      ((0, py '' +x ''), [c1, c2, py ''git diff --unified=0 --no-color origin/main...abc1''])"
    by (simp add: run_def py_def)
  have h6: "run (py ''git rev-parse --verify --quiet '' @ py ''main'')
      (if (1::int) = 0 then [c1, c2, py ''git diff --unified=0 --no-color origin/main...abc1'']
       else [c1, c2]) = ((0, py '' +x ''), [c1, c2, c3])"
    by (simp add: run_def c3_def py_def)
  have h7: "run (py ''git diff --unified=0 --no-color '' @ py ''main'' @ py ''...'' @ py ''abc1'')
      [c1, c2, c3] = ((128, []), [c1, c2, c3, c4])"
    by (simp add: run_def c4_def py_def)
  have h8: "run (py ''git merge-base '' @ py ''abc1'' @ py '' '' @ py ''main'')
      (if (0::int) = 0 then [c1, c2, c3, c4] else [c1, c2, c3]) =
      ((0, py ''abc0'' @ [10]), [c1, c2, c3, c4, c5])"
    by (simp add: run_def c5_def py_def)
  have h9: "run (py ''git diff --unified=0 --no-color '' @ py_strip (py ''abc0'' @ [10]) @
        py ''..'' @ py ''abc1'') [c1, c2, c3, c4, c5] =
      ((0, py '' +x ''), [c1, c2, c3, c4, c5, c6])"
    by (simp add: s) (simp add: run_def c6_def py_def)
  have h10: "run (py ''git diff --unified=0 --no-color HEAD~1..HEAD'')
      (if (0::int) = 0 \<and> py_strip (py ''abc0'' @ [10]) \<noteq> [] then [c1, c2, c3, c4, c5, c6]
       else [c1, c2, c3, c4, c5]) =
      ((0, py '' +x ''), [c1, c2, c3, c4, c5, c6, py ''git diff --unified=0 --no-color HEAD~1..HEAD''])"
    by (simp add: s) (simp add: run_def py_def)
  from get_diff_outcomes [OF h1 h2 h3 h4 h5 h6 h7 h8 h9 h10]
  have "get_diff run (py ''main'') (py ''abc1'') [] = (Inr (py ''+x''), [c1, c2, c3, c4, c5, c6])"
    by (simp add: s) (simp add: py_def)
  then show ?thesis
    by (simp only: run_def c1_def c2_def c3_def c4_def c5_def c6_def)
qed

text \<open>
  Claim C5 as stated says that the empty string is returned only when every strategy has
  failed. In a world where every command succeeds with empty output the first strategy
  succeeds, and \<^verbatim>\<open>get_diff\<close> returns the empty string.
\<close>

theorem get_diff_empty_after_success:
  "fst (get_diff (\<lambda>c w. ((0, []), w)) (py ''main'') (py ''abc'') ()) = Inr [] \<and>
   fst (get_diff_candidates (\<lambda>c w. ((0, []), w)) (py ''abc'')
          [py ''origin/'' @ py ''main'', py ''main'']
          (get_diff_fetch (\<lambda>c w. ((0, []), w)) (py ''main'') ())) = Some []"
  by (simp add: get_diff_def get_diff_fetch_def sh_def ref_exists_def py_strip_def)

text \<open>
  Claim C6. If, after the fetch step, \<^verbatim>\<open>git rev-parse\<close> accepts \<open>origin/<base_ref>\<close> and
  the three-dot diff against it succeeds, \<^verbatim>\<open>get_diff\<close> returns the trimmed output of that
  diff, and the world it leaves is the one right after the diff command: no later command
  has run. The witness runs in a world that records every command line.
\<close>

theorem get_diff_origin_first:
  assumes "run (py ''git rev-parse --verify --quiet '' @ (py ''origin/'' @ base_ref))
             (get_diff_fetch run base_ref w) = ((0, out1), w2)"
    and "run (py ''git diff --unified=0 --no-color '' @ (py ''origin/'' @ base_ref) @
               py ''...'' @ head_sha) w2 = ((0, out), w3)"
  shows "get_diff run base_ref head_sha w = (Inr (py_strip out), w3)"
  using assms by (simp add: get_diff_def Let_def ref_exists_def sh_def)

theorem get_diff_origin_first_witness:
  "get_diff (\<lambda>c w. ((0, py '' +x ''), w @ [c])) (py ''main'') (py ''abc1'') [] =
     (Inr (py ''+x''),
      [py ''git fetch --no-tags --depth=1 origin main'',
       py ''git rev-parse --verify --quiet origin/main'',
       py ''git diff --unified=0 --no-color origin/main...abc1''])"
proof -
  define run :: "pystr list shell" where "run = (\<lambda>c w. ((0, py '' +x ''), w @ [c]))"
  have h1: "run (py ''git rev-parse --verify --quiet '' @ (py ''origin/'' @ py ''main''))
      (get_diff_fetch run (py ''main'') []) =
      ((0, py '' +x ''), [py ''git fetch --no-tags --depth=1 origin main'',
         py ''git rev-parse --verify --quiet origin/main''])"
    by (simp add: run_def get_diff_fetch_def sh_def py_def)
  have h2: "run (py ''git diff --unified=0 --no-color '' @ (py ''origin/'' @ py ''main'') @
        py ''...'' @ py ''abc1'')
      [py ''git fetch --no-tags --depth=1 origin main'',
       py ''git rev-parse --verify --quiet origin/main''] =
      ((0, py '' +x ''), [py ''git fetch --no-tags --depth=1 origin main'',
         py ''git rev-parse --verify --quiet origin/main'',
         py ''git diff --unified=0 --no-color origin/main...abc1''])"
    by (simp add: run_def py_def)
  have s: "py_strip (py '' +x '') = py ''+x''"
    by (simp add: py_strip_def py_def is_space_def)
  from get_diff_origin_first [OF h1 h2] show ?thesis
    by (simp only: s run_def)
qed

section \<open>Claim about the size ceiling\<close>

text \<open>
  Claim C7. A body of more than 18000 characters becomes the notice followed by its last
  18000 characters, of total length the notice's length plus 18000; a body of at most
  18000 characters is left as it is.
\<close>

theorem truncate_body_ceiling:
  "(18000 < length body \<longrightarrow>
      truncate_body body = truncation_notice @ drop (length body - 18000) body \<and>
      length (truncate_body body) = length truncation_notice + 18000) \<and>
   (length body \<le> 18000 \<longrightarrow> truncate_body body = body)"
  by (auto simp: truncate_body_def py_slice_def py_index_def Let_def nat_diff_distrib')

theorem truncate_body_ceiling_witness:
  "length (truncate_body (replicate 18001 97)) = 18069 \<and>
   truncate_body (replicate 18001 97) = truncation_notice @ replicate 18000 97 \<and>
   truncate_body (py ''ok'') = py ''ok''"
  using truncate_body_ceiling [of "replicate 18001 97"] truncate_body_ceiling [of "py ''ok''"]
  by (simp add: truncation_notice_def py_def)

end
